theory Spec2Isabelle
  imports Main "HOL-Library.Word" "HOL-Library.Sublist"
begin

section \<open>Data model of parser.go\<close>

text \<open>
  A Go string is a sequence of bytes; \<^typ>\<open>string\<close> is a list of \<^typ>\<open>char\<close>, and a
  \<^typ>\<open>char\<close> is one byte, so \<^const>\<open>length\<close> is Go's \<open>len\<close>. A \<open>rune\<close> is an
  \<open>int32\<close>; \<open>rune(b)\<close> of a byte is \<^const>\<open>of_char\<close> and \<open>byte(r)\<close>, which keeps the
  low eight bits, is \<^const>\<open>char_of\<close> of the rune's bit pattern (\<^const>\<open>unat\<close>).
\<close>

type_synonym rune = "32 word"

text \<open>\<open>type Script [4]rune\<close>: an array, held as a list of four runes.\<close>

type_synonym Script = "rune list"

definition Script_zero :: Script where
  "Script_zero = replicate 4 0"

definition Script_IsZero :: "Script \<Rightarrow> bool" where
  "Script_IsZero s = (s = Script_zero)"

text \<open>\<open>Script.MarshalYAML\<close>: \<open>bs := make([]byte, 4); for i := 0; i < 4; i++ { bs[i] = byte(s[i]) }\<close>.\<close>

definition Script_MarshalYAML :: "Script \<Rightarrow> string" where
  "Script_MarshalYAML s =
     fold (\<lambda>i bs. bs[i := char_of (unat (s ! i))]) [0..<4] (replicate 4 (CHR 0x00))"

text \<open>
  \<open>type Date time.Time\<close>. Every \<open>Date\<close> of the program is either the zero value of
  \<open>time.Time\<close>, which is midnight UTC of 1 January of the year 1, or a result of
  \<open>time.Parse("2006-01-02", v)\<close>, which is midnight UTC of the day parsed. A \<open>Date\<close> is
  therefore held as its calendar day.
\<close>

datatype Date = Date (year: nat) (month: nat) (day: nat)

definition Date_zero :: Date where
  "Date_zero = Date 1 1 1"

text \<open>\<open>time.Time.IsZero\<close>: whether the instant is 1 January of the year 1, 00:00:00 UTC.\<close>

definition Date_IsZero :: "Date \<Rightarrow> bool" where
  "Date_IsZero d = (d = Date_zero)"

definition isDigit :: "char \<Rightarrow> bool" where
  "isDigit c = (let n = of_char c :: nat in 48 \<le> n \<and> n \<le> 57)"

definition digitVal :: "char \<Rightarrow> nat" where
  "digitVal c = of_char c - 48"

text \<open>
  \<open>time.Parse\<close> with the layout \<open>2006-01-02\<close>, by the steps of the library:
  \<open>stdLongYear\<close> takes four digits, the literal \<open>-\<close> is skipped, \<open>stdZeroMonth\<close> and
  \<open>stdZeroDay\<close> take two digits each (\<open>getnum\<close> with \<open>fixed\<close>), a month outside
  1 to 12 is out of range, text after the day is an error, and a day outside the
  month (\<open>daysIn\<close>, with leap years) is out of range.
\<close>

definition stdLongYear :: "string \<Rightarrow> (nat \<times> string) option" where
  "stdLongYear s =
     (if length s < 4 \<or> \<not> list_all isDigit (take 4 s) then None
      else Some (foldl (\<lambda>a c. a * 10 + digitVal c) 0 (take 4 s), drop 4 s))"

definition skipDash :: "string \<Rightarrow> string option" where
  "skipDash s = (case s of [] \<Rightarrow> None | c # rest \<Rightarrow> if c = CHR ''-'' then Some rest else None)"

definition getnum_fixed :: "string \<Rightarrow> (nat \<times> string) option" where
  "getnum_fixed s =
     (case s of
        a # b # rest \<Rightarrow>
          if isDigit a \<and> isDigit b then Some (digitVal a * 10 + digitVal b, rest) else None
      | _ \<Rightarrow> None)"

definition isLeap :: "nat \<Rightarrow> bool" where
  "isLeap y = (y mod 4 = 0 \<and> (y mod 100 \<noteq> 0 \<or> y mod 400 = 0))"

definition daysIn :: "nat \<Rightarrow> nat \<Rightarrow> nat" where
  "daysIn m y =
     (if m = 2 then (if isLeap y then 29 else 28)
      else if m = 4 \<or> m = 6 \<or> m = 9 \<or> m = 11 then 30 else 31)"

definition time_Parse :: "string \<Rightarrow> Date option" where
  "time_Parse v =
     (case stdLongYear v of None \<Rightarrow> None | Some (y, v1) \<Rightarrow>
      case skipDash v1 of None \<Rightarrow> None | Some v2 \<Rightarrow>
      case getnum_fixed v2 of None \<Rightarrow> None | Some (m, v3) \<Rightarrow>
      if m \<le> 0 \<or> 12 < m then None else
      case skipDash v3 of None \<Rightarrow> None | Some v4 \<Rightarrow>
      case getnum_fixed v4 of None \<Rightarrow> None | Some (d, v5) \<Rightarrow>
      if v5 \<noteq> [] then None
      else if d < 1 \<or> daysIn m y < d then None
      else Some (Date y m d))"

text \<open>
  \<open>Date.MarshalYAML\<close>: \<open>time.Time.Format("2006-01-02")\<close>, the year padded with zeros
  to four digits, the month and the day to two.
\<close>

fun decimal :: "nat \<Rightarrow> string" where
  "decimal n =
     (if n < 10 then [char_of (48 + n)] else decimal (n div 10) @ [char_of (48 + n mod 10)])"

declare decimal.simps [simp del]

definition appendInt :: "nat \<Rightarrow> nat \<Rightarrow> string" where
  "appendInt n width = replicate (width - length (decimal n)) (CHR ''0'') @ decimal n"

definition Date_MarshalYAML :: "Date \<Rightarrow> string" where
  "Date_MarshalYAML d = appendInt (year d) 4 @ ''-'' @ appendInt (month d) 2 @ ''-'' @ appendInt (day d) 2"

text \<open>
  Every \<open>log.Fatalf\<close> of the parser is a value of \<open>error\<close>, one constructor for each
  message of the source:
  \<^item> \<open>NotFileDateBlock\<close>: "First block is not a file-data block" (\<open>initRegistry\<close>);
  \<^item> \<open>ValueCount k n\<close>: "key k has value with length n != 1" (\<open>parseDate\<close>,
    \<open>parseScript\<close>, \<open>parseString\<close>);
  \<^item> \<open>DateSyntax k v\<close>: "key k failed parsing value v" (\<open>parseDate\<close>);
  \<^item> \<open>ScriptLength k v\<close>: "key k has language with len != 4" (\<open>parseScript\<close>);
  \<^item> \<open>UnexpectedKey k\<close>: "unexpected key" (\<open>parseBlock\<close>);
  \<^item> \<open>IndexOutOfRange\<close>: the run-time panic of \<open>bss[0]\<close> on an empty slice.
\<close>

datatype error =
    NotFileDateBlock
  | ValueCount string nat
  | DateSyntax string string
  | ScriptLength string string
  | UnexpectedKey string
  | IndexOutOfRange

definition parseScript :: "string \<Rightarrow> string list \<Rightarrow> error + Script" where
  "parseScript k vs =
     (if length vs \<noteq> 1 then Inl (ValueCount k (length vs))
      else let v = vs ! 0 in
        if length v \<noteq> 4 then Inl (ScriptLength k v)
        else Inr (fold (\<lambda>i fixed. fixed[i := of_char (v ! i)]) [0..<length v] (replicate 4 0)))"

definition parseString :: "string \<Rightarrow> string list \<Rightarrow> error + string" where
  "parseString k vs =
     (if length vs \<noteq> 1 then Inl (ValueCount k (length vs))
      else let v = vs ! 0 in Inr v)"

definition parseDate :: "string \<Rightarrow> string list \<Rightarrow> error + Date" where
  "parseDate k vs =
     (if length vs \<noteq> 1 then Inl (ValueCount k (length vs))
      else let v = vs ! 0 in
        case time_Parse v of
          None \<Rightarrow> Inl (DateSyntax k v)
        | Some t \<Rightarrow> Inr t)"

record Entry =
  Added :: Date
  Comments :: string
  Deprecated :: Date
  Description :: "string list"
  MacroLanguage :: string
  PreferredValue :: string
  Prefix :: "string list"
  Scope :: string
  Subtag :: string
  SuppressScript :: Script
  Tag :: string
  Type :: string

text \<open>\<open>&Entry{}\<close>: every field has the zero value of its type; a \<open>nil\<close> slice is \<open>[]\<close>.\<close>

definition Entry_zero :: Entry where
  "Entry_zero =
     \<lparr>Added = Date_zero, Comments = [], Deprecated = Date_zero, Description = [],
      MacroLanguage = [], PreferredValue = [], Prefix = [], Scope = [], Subtag = [],
      SuppressScript = Script_zero, Tag = [], Type = []\<rparr>"

record Registry =
  FileDate :: Date
  Entries :: "Entry list"

section \<open>Library functions used by the lexer\<close>

text \<open>
  \<open>strings.Index(s, sep)\<close> and \<open>bytes.Index(s, sep)\<close>: the index of the first
  occurrence of \<open>sep\<close> in \<open>s\<close>; Go's \<open>-1\<close> is \<open>None\<close>.
\<close>

fun strings_Index :: "string \<Rightarrow> string \<Rightarrow> nat option" where
  "strings_Index [] sep = (if sep = [] then Some 0 else None)"
| "strings_Index (c # cs) sep =
     (if prefix sep (c # cs) then Some 0 else map_option Suc (strings_Index cs sep))"

text \<open>
  \<open>strings.Split(s, sep)\<close> for a non-empty separator: cut at each occurrence found by
  \<open>Index\<close>, from the left, and end with the remainder. (For an empty separator Go
  explodes \<open>s\<close> into its UTF-8 sequences; the program never passes one, and the model
  explodes into bytes.)
\<close>

function strings_Split :: "string \<Rightarrow> string \<Rightarrow> string list" where
  "strings_Split s sep =
     (if sep = [] then map (\<lambda>c. [c]) s
      else case strings_Index s sep of
             None \<Rightarrow> [s]
           | Some m \<Rightarrow> take m s # strings_Split (drop (m + length sep) s) sep)"
  by pat_completeness auto
termination
proof (relation "measure (\<lambda>(s, sep). length s)")
  show "wf (measure (\<lambda>(s, sep). length s))" by simp
next
  fix s sep :: string and m
  assume sep: "sep \<noteq> []" and found: "strings_Index s sep = Some m"
  have bound: "strings_Index t sep = Some k \<Longrightarrow> k + length sep \<le> length t" for t k
  proof (induction t arbitrary: k)
    case Nil
    then show ?case by (simp split: if_splits)
  next
    case (Cons c cs)
    show ?case
    proof (cases "prefix sep (c # cs)")
      case True
      with Cons.prems show ?thesis by (auto dest: prefix_length_le)
    next
      case False
      with Cons.prems obtain k' where "strings_Index cs sep = Some k'" "k = Suc k'"
        by auto
      with Cons.IH show ?thesis by fastforce
    qed
  qed
  from found have "m + length sep \<le> length s"
    by (rule bound)
  moreover from sep have "0 < length sep"
    by simp
  ultimately have "length s - (m + length sep) < length s"
    by linarith
  then show "((drop (m + length sep) s, sep), (s, sep)) \<in> measure (\<lambda>(s, sep). length s)"
    by simp
qed

declare strings_Split.simps [simp del]

text \<open>
  \<open>strings.Trim(s, cutset)\<close> for a cutset of ASCII bytes: all leading and trailing
  bytes that are in the cutset are removed.
\<close>

definition strings_Trim :: "string \<Rightarrow> string \<Rightarrow> string" where
  "strings_Trim s cutset =
     rev (dropWhile (\<lambda>c. c \<in> set cutset) (rev (dropWhile (\<lambda>c. c \<in> set cutset) s)))"

text \<open>
  \<open>strings.ToLower(s)\<close> on ASCII text: the letters \<open>A\<close> to \<open>Z\<close> become \<open>a\<close> to \<open>z\<close>,
  every other byte is kept. The lexer applies it to the name matched by \<open>PropRowRx\<close>
  only, which consists of ASCII letters and hyphens.
\<close>

definition isUpper :: "char \<Rightarrow> bool" where
  "isUpper c = (let n = of_char c :: nat in 65 \<le> n \<and> n \<le> 90)"

definition isLower :: "char \<Rightarrow> bool" where
  "isLower c = (let n = of_char c :: nat in 97 \<le> n \<and> n \<le> 122)"

definition strings_ToLower :: "string \<Rightarrow> string" where
  "strings_ToLower s = map (\<lambda>c. if isUpper c then char_of (of_char c + 32 :: nat) else c) s"

text \<open>
  \<open>PropRowRx = ^((?:-|[[:alpha:]])+): (.+)$\<close>. \<open>[[:alpha:]]\<close> is the ASCII letters;
  a colon is neither a letter nor a hyphen, so group 1 is the longest run of letters
  and hyphens at the start of the row, and it must be followed by a colon and a space;
  group 2 is the rest of the row, at least one byte, none of them a newline (\<open>.\<close> does
  not match a newline and \<open>$\<close> only matches at the end of the text).
  \<open>FindStringSubmatch\<close> returns \<open>nil\<close> (here \<open>[]\<close>) when the row does not match, and
  the whole match followed by the two groups when it does.
\<close>

definition isNameByte :: "char \<Rightarrow> bool" where
  "isNameByte c = (c = CHR ''-'' \<or> isUpper c \<or> isLower c)"

definition PropRowRx_FindStringSubmatch :: "string \<Rightarrow> string list" where
  "PropRowRx_FindStringSubmatch row =
     (let name = takeWhile isNameByte row;
          rest = dropWhile isNameByte row;
          val = drop 2 rest
      in if name \<noteq> [] \<and> take 2 rest = '': '' \<and> val \<noteq> [] \<and> CHR 0x0A \<notin> set val
         then [row, name, val] else [])"

section \<open>The field lexer\<close>

text \<open>
  The map \<open>m\<close> of \<open>lexBlock\<close> is a partial function from keys to value lists. Reading
  a missing key of a Go map gives \<open>nil\<close>, so \<open>m[ck] = append(m[ck], cv)\<close> starts a new
  list for a new key.
\<close>

type_synonym lexed = "string \<rightharpoonup> string list"

definition appendValue :: "lexed \<Rightarrow> string \<Rightarrow> string \<Rightarrow> lexed" where
  "appendValue m ck cv = m(ck \<mapsto> (case m ck of None \<Rightarrow> [] | Some vs \<Rightarrow> vs) @ [cv])"

text \<open>The state of the loop of \<open>lexBlock\<close> is \<open>(m, ck, cv)\<close>; \<open>lexRow\<close> is its body.\<close>

definition lexRow :: "lexed \<times> string \<times> string \<Rightarrow> string \<Rightarrow> lexed \<times> string \<times> string" where
  "lexRow st row =
     (case st of (m, ck, cv) \<Rightarrow>
        if row = [] then (m, ck, cv)
        else let key = PropRowRx_FindStringSubmatch row in
          if length key > 2
          then let nk = strings_ToLower (key ! 1); nv = key ! 2
               in ((if ck \<noteq> [] then appendValue m ck cv else m), nk, nv)
          else (m, ck, cv @ '' '' @ strings_Trim row '' ''))"

definition lexFlush :: "lexed \<times> string \<times> string \<Rightarrow> lexed" where
  "lexFlush st = (case st of (m, ck, cv) \<Rightarrow> if ck \<noteq> [] then appendValue m ck cv else m)"

definition lexBlock :: "string \<Rightarrow> lexed" where
  "lexBlock bs = lexFlush (foldl lexRow (Map.empty, [], []) (strings_Split bs [CHR 0x0A]))"

section \<open>The record parser\<close>

text \<open>The body of the \<open>switch k\<close> of \<open>parseBlock\<close>, for one entry \<open>(k, vs)\<close> of the map.\<close>

definition parseField :: "Entry \<Rightarrow> string \<Rightarrow> string list \<Rightarrow> error + Entry" where
  "parseField e k vs =
     (if k = ''added'' then map_sum id (\<lambda>d. e\<lparr>Added := d\<rparr>) (parseDate k vs)
      else if k = ''comments'' then map_sum id (\<lambda>v. e\<lparr>Comments := v\<rparr>) (parseString k vs)
      else if k = ''deprecated'' then map_sum id (\<lambda>d. e\<lparr>Deprecated := d\<rparr>) (parseDate k vs)
      else if k = ''description'' then Inr (e\<lparr>Description := vs\<rparr>)
      else if k = ''macrolanguage'' then map_sum id (\<lambda>v. e\<lparr>MacroLanguage := v\<rparr>) (parseString k vs)
      else if k = ''preferred-value'' then map_sum id (\<lambda>v. e\<lparr>PreferredValue := v\<rparr>) (parseString k vs)
      else if k = ''prefix'' then Inr (e\<lparr>Prefix := vs\<rparr>)
      else if k = ''scope'' then map_sum id (\<lambda>v. e\<lparr>Scope := v\<rparr>) (parseString k vs)
      else if k = ''subtag'' then map_sum id (\<lambda>v. e\<lparr>Subtag := v\<rparr>) (parseString k vs)
      else if k = ''suppress-script'' then map_sum id (\<lambda>s. e\<lparr>SuppressScript := s\<rparr>) (parseScript k vs)
      else if k = ''tag'' then map_sum id (\<lambda>v. e\<lparr>Tag := v\<rparr>) (parseString k vs)
      else if k = ''type'' then map_sum id (\<lambda>v. e\<lparr>Type := v\<rparr>) (parseString k vs)
      else Inl (UnexpectedKey k))"

text \<open>
  \<open>for k, vs := range lexed\<close> visits every entry of the map once, in an order that Go
  leaves unspecified. The loop is modelled on the sequence of entries in the order
  of the visit; \<open>log.Fatalf\<close> ends the run at the first entry that fails.
\<close>

fun parseEntries :: "Entry \<Rightarrow> (string \<times> string list) list \<Rightarrow> error + Entry" where
  "parseEntries e [] = Inr e"
| "parseEntries e ((k, vs) # rest) =
     (case parseField e k vs of Inl err \<Rightarrow> Inl err | Inr e' \<Rightarrow> parseEntries e' rest)"

definition parseBlock :: "(string \<times> string list) list \<Rightarrow> error + Entry" where
  "parseBlock visit = parseEntries Entry_zero visit"

text \<open>A sequence of entries is a visit of the map \<open>m\<close> when it lists each entry of \<open>m\<close> once.\<close>

definition visits :: "lexed \<Rightarrow> (string \<times> string list) list \<Rightarrow> bool" where
  "visits m visit = (distinct (map fst visit) \<and> map_of visit = m)"

text \<open>\<open>initRegistry\<close>; \<open>bss[0]\<close> panics when there is no block.\<close>

definition initRegistry :: "string list \<Rightarrow> error + Registry" where
  "initRegistry bss =
     (case bss of
        [] \<Rightarrow> Inl IndexOutOfRange
      | b # _ \<Rightarrow>
          let dateBlock = lexBlock b in
          case dateBlock ''file-date'' of
            None \<Rightarrow> Inl NotFileDateBlock
          | Some fd \<Rightarrow> map_sum id (\<lambda>d. \<lparr>FileDate = d, Entries = []\<rparr>) (parseDate ''file-date'' fd))"

section \<open>The block splitter\<close>

text \<open>The separator of \<open>loadBlocks\<close>: a newline, two percent signs, a newline.\<close>

definition sep :: string where
  "sep = [CHR 0x0A, CHR ''%'', CHR ''%'', CHR 0x0A]"

text \<open>
  What a split function returns to \<open>bufio.Scanner\<close>: \<open>Token advance token\<close> is
  \<open>(advance, token, nil)\<close>, \<open>NeedMore\<close> is \<open>(0, nil, nil)\<close>, a request for more data, and
  \<open>FinalToken advance token\<close> is \<open>(advance, token, bufio.ErrFinalToken)\<close>.
\<close>

datatype split_result = Token nat string | NeedMore | FinalToken nat string

text \<open>The split function that \<open>loadBlocks\<close> gives to the scanner.\<close>

definition splitFunc :: "string \<Rightarrow> bool \<Rightarrow> split_result" where
  "splitFunc data atEOF =
     (case strings_Index data sep of
        Some index \<Rightarrow> Token (index + length sep) (take (index + 1) data)
      | None \<Rightarrow> if \<not> atEOF then NeedMore else FinalToken (length data) data)"

text \<open>
  \<open>bufio.Scanner\<close> with its default buffer. \<open>Scan\<close> gives the split function the input
  that is read and not yet consumed, and reads more while the function asks for more.
  The buffer grows to \<open>MaxScanTokenSize\<close> bytes at most: once that many unconsumed
  bytes are buffered and the function still asks for more, \<open>Scan\<close> stops with
  \<open>ErrTooLong\<close> and returns false. At the end of the input the function is called with
  \<open>atEOF\<close>, also when no data is left, and the token it returns with \<open>ErrFinalToken\<close>
  is delivered as the last one (an empty slice of the buffer is not \<open>nil\<close>).
  A separator is found in the buffered bytes exactly when it lies within the first
  \<open>MaxScanTokenSize\<close> unconsumed bytes, so the tokens are those of the function on that
  prefix, with \<open>atEOF\<close> when the whole rest of the input fits below the limit.
\<close>

definition MaxScanTokenSize :: nat where
  "MaxScanTokenSize = 64 * 1024"

function Scanner_tokens :: "string \<Rightarrow> string list" where
  "Scanner_tokens input =
     (case splitFunc (take MaxScanTokenSize input) (length input < MaxScanTokenSize) of
        Token advance token \<Rightarrow> token # Scanner_tokens (drop advance input)
      | NeedMore \<Rightarrow> []
      | FinalToken advance token \<Rightarrow> [token])"
  by pat_completeness auto
termination
proof (relation "measure length")
  show "wf (measure length)" by simp
next
  fix input advance token
  assume tok: "splitFunc (take MaxScanTokenSize input) (length input < MaxScanTokenSize)
                 = Token advance token"
  have bound: "strings_Index t sep = Some k \<Longrightarrow> k + length sep \<le> length t" for t k
  proof (induction t arbitrary: k)
    case Nil
    then show ?case by (simp split: if_splits)
  next
    case (Cons c cs)
    show ?case
    proof (cases "prefix sep (c # cs)")
      case True
      with Cons.prems show ?thesis by (auto dest: prefix_length_le)
    next
      case False
      with Cons.prems obtain k' where "strings_Index cs sep = Some k'" "k = Suc k'"
        by auto
      with Cons.IH show ?thesis by fastforce
    qed
  qed
  from tok obtain index where
    idx: "strings_Index (take MaxScanTokenSize input) sep = Some index" and
    adv: "advance = index + length sep"
    by (auto simp: splitFunc_def split: option.splits if_splits)
  from idx have "index + length sep \<le> length (take MaxScanTokenSize input)"
    by (rule bound)
  with adv have "0 < advance \<and> advance \<le> length input"
    by (simp add: sep_def)
  then have "length input - advance < length input"
    by linarith
  then show "(drop advance input, input) \<in> measure length"
    by simp
qed

declare Scanner_tokens.simps [simp del]

text \<open>
  The part of \<open>loadBlocks\<close> after the label \<open>fileExists\<close>, as a function of the text that
  the file \<open>f\<close> holds: \<open>for br.Scan() { blocks = append(blocks, []byte(br.Text())) }\<close>.
\<close>

definition loadBlocks :: "string \<Rightarrow> string list" where
  "loadBlocks text = Scanner_tokens text"

section \<open>The YAML encoding\<close>

text \<open>
  The encoder of \<open>yaml.v3\<close> on the two structs, by their \<open>yaml\<close> tags. A struct is
  encoded field by field, in the order of the declaration; a field is a key, whether
  its tag has \<open>omitempty\<close>, whether its value is zero (by \<open>IsZero\<close> for \<open>Date\<close> and
  \<open>Script\<close>, which implement \<open>yaml.IsZeroer\<close>, by length 0 for strings and slices),
  and its encoded value. A field with \<open>omitempty\<close> whose value is zero is skipped.
\<close>

datatype yaml = YString string | YSeq "yaml list" | YMap "(string \<times> yaml) list"

type_synonym field = "string \<times> bool \<times> bool \<times> yaml"

fun structv :: "field list \<Rightarrow> (string \<times> yaml) list" where
  "structv [] = []"
| "structv ((key, omitEmpty, zero, v) # rest) =
     (if omitEmpty \<and> zero then structv rest else (key, v) # structv rest)"

definition YStrings :: "string list \<Rightarrow> yaml" where
  "YStrings vs = YSeq (map YString vs)"

definition Entry_fields :: "Entry \<Rightarrow> field list" where
  "Entry_fields e =
     [(''added'', False, Date_IsZero (Added e), YString (Date_MarshalYAML (Added e))),
      (''comments'', True, Comments e = [], YString (Comments e)),
      (''deprecated'', True, Date_IsZero (Deprecated e), YString (Date_MarshalYAML (Deprecated e))),
      (''description'', True, Description e = [], YStrings (Description e)),
      (''macro-language'', True, MacroLanguage e = [], YString (MacroLanguage e)),
      (''preferred-value'', True, PreferredValue e = [], YString (PreferredValue e)),
      (''prefix'', True, Prefix e = [], YStrings (Prefix e)),
      (''scope'', True, Scope e = [], YString (Scope e)),
      (''subtag'', True, Subtag e = [], YString (Subtag e)),
      (''suppress-script'', True, Script_IsZero (SuppressScript e),
         YString (Script_MarshalYAML (SuppressScript e))),
      (''tag'', True, Tag e = [], YString (Tag e)),
      (''type'', True, Type e = [], YString (Type e))]"

definition Entry_encode :: "Entry \<Rightarrow> yaml" where
  "Entry_encode e = YMap (structv (Entry_fields e))"

text \<open>\<open>Registry\<close> has no tags: the keys are the field names in lower case.\<close>

definition Registry_fields :: "Registry \<Rightarrow> field list" where
  "Registry_fields r =
     [(''filedate'', False, Date_IsZero (FileDate r), YString (Date_MarshalYAML (FileDate r))),
      (''entries'', False, Entries r = [], YSeq (map Entry_encode (Entries r)))]"

definition Registry_encode :: "Registry \<Rightarrow> yaml" where
  "Registry_encode r = YMap (structv (Registry_fields r))"

section \<open>Notions of the specification\<close>

text \<open>
  The script decoder as the specification words it: one raw value, of exactly four
  characters, all of them in the ASCII range.
\<close>

definition isASCII :: "char \<Rightarrow> bool" where
  "isASCII c = ((of_char c :: nat) < 128)"

definition spec_script_valid :: "string list \<Rightarrow> bool" where
  "spec_script_valid vs = (case vs of [v] \<Rightarrow> length v = 4 \<and> list_all isASCII v | _ \<Rightarrow> False)"

text \<open>The block splitter as the specification words it: the text split on the separator.\<close>

definition spec_blocks :: "string \<Rightarrow> string list" where
  "spec_blocks text = strings_Split text sep"




text \<open>Whether the decoder of the field \<open>k\<close> accepts the raw values \<open>vs\<close>.\<close>

definition decodes :: "string \<times> string list \<Rightarrow> bool" where
  "decodes kv = (case parseField Entry_zero (fst kv) (snd kv) of Inl _ \<Rightarrow> False | Inr _ \<Rightarrow> True)"

text \<open>The text of a block from its rows: the rows with a newline between them.\<close>

fun joinRows :: "string list \<Rightarrow> string" where
  "joinRows [] = []"
| "joinRows [r] = r"
| "joinRows (r # r' # rest) = r @ [CHR 0x0A] @ joinRows (r' # rest)"

definition isFieldLine :: "string \<Rightarrow> bool" where
  "isFieldLine row = (length (PropRowRx_FindStringSubmatch row) > 2)"

definition foldValue :: "string \<Rightarrow> string list \<Rightarrow> string" where
  "foldValue v conts = v @ concat (map (\<lambda>c. '' '' @ strings_Trim c '' '') conts)"

text \<open>
  The fields of a block, read off its rows: each field line gives one field, named by
  the lower-cased group 1 of the pattern, whose value is group 2 followed by the
  rows up to the next field line that are not empty, each trimmed and joined by a
  space. Rows before the first field line give no field.
\<close>

definition fieldName :: "string \<Rightarrow> string" where
  "fieldName row = strings_ToLower (PropRowRx_FindStringSubmatch row ! 1)"

definition fieldValue :: "string \<Rightarrow> string" where
  "fieldValue row = PropRowRx_FindStringSubmatch row ! 2"

fun lexFields :: "string list \<Rightarrow> (string \<times> string) list" where
  "lexFields [] = []"
| "lexFields (r # rows) =
     (if isFieldLine r
      then (fieldName r,
            foldValue (fieldValue r)
              (filter (\<lambda>c. c \<noteq> []) (takeWhile (\<lambda>c. \<not> isFieldLine c) rows)))
           # lexFields rows
      else lexFields rows)"

text \<open>The values of the key \<open>k\<close> among fields, in order; and a map extended by fields.\<close>

definition valuesOf :: "string \<Rightarrow> (string \<times> string) list \<Rightarrow> string list" where
  "valuesOf k kvs = map snd (filter (\<lambda>kv. fst kv = k) kvs)"

fun addValues :: "lexed \<Rightarrow> (string \<times> string) list \<Rightarrow> lexed" where
  "addValues m [] = m"
| "addValues m ((k, v) # kvs) = addValues (appendValue m k v) kvs"

section \<open>The script decoder\<close>

lemma upt_4: "[0..<4] = [0, Suc 0, 2, 3]"
  by (simp add: upt_rec)

lemma replicate_4: "replicate 4 x = [x, x, x, x]"
  by (simp add: numeral_eq_Suc)

lemma list_update_4: "[w, x, y, z][0 := a, Suc 0 := b, 2 := c, 3 := d] = [a, b, c, d]"
  by (simp add: numeral_eq_Suc)

lemma length_4_cases:
  assumes "length v = 4"
  shows "\<exists>a b c d. v = [a, b, c, d]"
proof -
  from assms have "length v = Suc (Suc (Suc (Suc 0)))"
    by (simp add: numeral_eq_Suc)
  then show ?thesis
    by (auto simp: length_Suc_conv)
qed

lemma unat_rune_of_char: "unat (of_char c :: rune) = of_char c"
proof -
  have lt: "(of_char c :: nat) < 4294967296"
    using nat_of_char_less_256 [of c] by linarith
  have "unat (of_nat (of_char c :: nat) :: rune) = of_char c"
    by (simp add: unat_of_nat lt)
  then show ?thesis by (simp only: of_nat_of_char)
qed

lemma byte_of_rune_of_char: "char_of (unat (of_char c :: rune)) = c"
  by (simp add: unat_rune_of_char)

lemma parseScript_4:
  "parseScript k [[a, b, c, d]] = Inr [of_char a, of_char b, of_char c, of_char d]"
  by (simp add: parseScript_def upt_4 replicate_4 list_update_4)

lemma Script_MarshalYAML_4:
  "Script_MarshalYAML [p, q, r, s] =
     [char_of (unat p), char_of (unat q), char_of (unat r), char_of (unat s)]"
  by (simp add: Script_MarshalYAML_def upt_4 replicate_4 list_update_4)

text \<open>
  C10. For every raw value \<open>v\<close> of exactly four bytes, the script decoder accepts the
  singleton list \<open>[v]\<close>, and marshalling the script it returns gives \<open>v\<close> back.
\<close>

theorem parseScript_marshal_roundtrip:
  "length v = 4 \<Longrightarrow>
     (\<exists>s. parseScript k [v] = Inr s \<and> Script_MarshalYAML s = v)"
proof -
  assume "length v = 4"
  then obtain a b c d where v: "v = [a, b, c, d]"
    using length_4_cases by blast
  show ?thesis
    unfolding v parseScript_4 by (simp add: Script_MarshalYAML_4 byte_of_rune_of_char)
qed

theorem parseScript_marshal_roundtrip_witness:
  "length ''Latf'' = 4 \<and>
     (\<exists>s. parseScript ''suppress-script'' [''Latf''] = Inr s \<and> Script_MarshalYAML s = ''Latf'')"
  using parseScript_marshal_roundtrip [of "''Latf''" "''suppress-script''"] by simp

lemma parseScript_Inr_iff:
  "(\<exists>s. parseScript k vs = Inr s) \<longleftrightarrow> (\<exists>v. vs = [v] \<and> length v = 4)"
proof
  assume "\<exists>s. parseScript k vs = Inr s"
  then have "length vs = 1" and "length (vs ! 0) = 4"
    by (auto simp: parseScript_def Let_def split: if_splits)
  then show "\<exists>v. vs = [v] \<and> length v = 4"
    by (cases vs) auto
next
  assume "\<exists>v. vs = [v] \<and> length v = 4"
  then obtain v where "vs = [v]" "length v = 4" by blast
  then show "\<exists>s. parseScript k vs = Inr s"
    by (simp add: parseScript_def)
qed

text \<open>
  C2, as the code has it. The script decoder succeeds exactly when the field has one
  raw value of exactly four bytes; the script is then the four bytes as runes. No
  byte is checked for being ASCII. With another number of values it fails with the
  value-count message, with one value of another length with the script-length
  message. \<open>Latf\<close> is accepted and \<open>Lat\<close> is refused.
\<close>

theorem parseScript_accepts_four_bytes:
  "((\<exists>s. parseScript k vs = Inr s) \<longleftrightarrow> (\<exists>v. vs = [v] \<and> length v = 4))
   \<and> (length vs \<noteq> 1 \<longrightarrow> parseScript k vs = Inl (ValueCount k (length vs)))
   \<and> (length v \<noteq> 4 \<longrightarrow> parseScript k [v] = Inl (ScriptLength k v))
   \<and> (length v = 4 \<longrightarrow> parseScript k [v] = Inr (map of_char v))
   \<and> parseScript k [''Latf''] = Inr [0x4C, 0x61, 0x74, 0x66]
   \<and> parseScript k [''Lat''] = Inl (ScriptLength k ''Lat'')"
proof -
  have four: "parseScript k [v] = Inr (map of_char v)" if "length v = 4"
  proof -
    from that obtain a b c d where "v = [a, b, c, d]"
      using length_4_cases by blast
    then show ?thesis by (simp add: parseScript_4)
  qed
  have latf: "parseScript k [''Latf''] = Inr [0x4C, 0x61, 0x74, 0x66]"
    by (simp add: parseScript_4)
  show ?thesis
    using four latf by (simp add: parseScript_Inr_iff) (simp add: parseScript_def)
qed

theorem parseScript_accepts_four_bytes_witness:
  "(\<exists>s. parseScript ''suppress-script'' [''Latn''] = Inr s)
   \<and> parseScript ''suppress-script'' [''Latn'', ''Cyrl''] = Inl (ValueCount ''suppress-script'' 2)
   \<and> parseScript ''suppress-script'' [''Latn''] = Inr (map of_char ''Latn'')"
  using parseScript_accepts_four_bytes [of "''suppress-script''" "[''Latn'']" "''Latn''"]
    parseScript_accepts_four_bytes [of "''suppress-script''" "[''Latn'', ''Cyrl'']" "''Latn''"]
  by simp

text \<open>
  C2, as the specification words it, fails: the four bytes \<open>C3 A9 61 62\<close> (the UTF-8
  text of three characters, the first outside ASCII) are accepted.
\<close>

theorem parseScript_non_ascii_counterexample:
  "parseScript ''suppress-script'' [[CHR 0xC3, CHR 0xA9, CHR ''a'', CHR ''b'']]
     = Inr [0xC3, 0xA9, 0x61, 0x62]
   \<and> \<not> spec_script_valid [[CHR 0xC3, CHR 0xA9, CHR ''a'', CHR ''b'']]"
  by (simp add: parseScript_4 spec_script_valid_def isASCII_def)

section \<open>The block splitter on the empty input\<close>

text \<open>
  C7, as the specification words it, fails: on the empty input the splitter does
  not return zero blocks.
\<close>

theorem loadBlocks_empty_counterexample:
  "loadBlocks [] \<noteq> []"
  by (simp add: loadBlocks_def Scanner_tokens.simps splitFunc_def MaxScanTokenSize_def sep_def)

text \<open>
  C7, as the code has it. On the empty input the split function returns the empty
  remainder as the final token, so the splitter returns one block, the empty one.
\<close>

theorem loadBlocks_empty:
  "loadBlocks [] = [[]]"
  by (simp add: loadBlocks_def Scanner_tokens.simps splitFunc_def MaxScanTokenSize_def sep_def)

section \<open>The encoding of an entry\<close>

lemma Date_MarshalYAML_zero: "Date_MarshalYAML Date_zero = ''0001-01-01''"
  by code_simp

text \<open>
  C6, as the specification words it, fails: the entry with every field zero is
  encoded with its \<open>added\<close> date, whose tag has no \<open>omitempty\<close>.
\<close>

theorem Entry_encode_added_counterexample:
  "Date_IsZero (Added Entry_zero)
   \<and> Entry_encode Entry_zero = YMap [(''added'', YString ''0001-01-01'')]"
  by (simp add: Entry_encode_def Entry_fields_def Entry_zero_def Date_IsZero_def
      Script_IsZero_def Date_MarshalYAML_zero)

text \<open>
  C6, as the code has it. An entry is encoded as its \<open>added\<close> date, always, followed
  by each other field, in the order of the declaration, that is not zero: a string
  or a list that is not empty, a \<open>deprecated\<close> date that is not the zero date, a
  script that is not the all-zero script. A zero field other than \<open>added\<close> has no key
  in the output.
\<close>

theorem Entry_encode_omitempty:
  "Entry_encode e = YMap (
     [(''added'', YString (Date_MarshalYAML (Added e)))]
     @ (if Comments e = [] then [] else [(''comments'', YString (Comments e))])
     @ (if Date_IsZero (Deprecated e) then []
        else [(''deprecated'', YString (Date_MarshalYAML (Deprecated e)))])
     @ (if Description e = [] then [] else [(''description'', YStrings (Description e))])
     @ (if MacroLanguage e = [] then [] else [(''macro-language'', YString (MacroLanguage e))])
     @ (if PreferredValue e = [] then []
        else [(''preferred-value'', YString (PreferredValue e))])
     @ (if Prefix e = [] then [] else [(''prefix'', YStrings (Prefix e))])
     @ (if Scope e = [] then [] else [(''scope'', YString (Scope e))])
     @ (if Subtag e = [] then [] else [(''subtag'', YString (Subtag e))])
     @ (if Script_IsZero (SuppressScript e) then []
        else [(''suppress-script'', YString (Script_MarshalYAML (SuppressScript e)))])
     @ (if Tag e = [] then [] else [(''tag'', YString (Tag e))])
     @ (if Type e = [] then [] else [(''type'', YString (Type e))]))"
  by (simp add: Entry_encode_def Entry_fields_def)

section \<open>The header block\<close>

lemmas lexBlock_eval =
  lexBlock_def lexFlush_def lexRow_def appendValue_def strings_Split.simps
  PropRowRx_FindStringSubmatch_def isNameByte_def isUpper_def isLower_def
  strings_ToLower_def strings_Trim_def Let_def char_of_def bit_Suc_0_iff

lemmas time_Parse_eval =
  time_Parse_def stdLongYear_def skipDash_def getnum_fixed_def isDigit_def digitVal_def
  daysIn_def isLeap_def

text \<open>
  C1, as the code has it. The header is parsed from the first block, and it succeeds
  exactly when the lexed block has the field \<open>file-date\<close> with one value that parses as
  a date by the layout \<open>2006-01-02\<close>; the registry then has that date and no entries.
  Other fields of the block are not looked at. A block without \<open>file-date\<close> is fatal
  with "First block is not a file-data block"; a \<open>file-date\<close> with several values or
  with a value that does not parse is fatal in \<open>parseDate\<close>.
\<close>

theorem initRegistry_file_date:
  "(initRegistry (b # bs) = Inr r \<longleftrightarrow>
      (\<exists>v d. lexBlock b ''file-date'' = Some [v] \<and> time_Parse v = Some d
             \<and> r = \<lparr>FileDate = d, Entries = []\<rparr>))
   \<and> (lexBlock b ''file-date'' = None \<longrightarrow> initRegistry (b # bs) = Inl NotFileDateBlock)
   \<and> (lexBlock b ''file-date'' = Some vs \<and> length vs \<noteq> 1 \<longrightarrow>
        initRegistry (b # bs) = Inl (ValueCount ''file-date'' (length vs)))
   \<and> (lexBlock b ''file-date'' = Some [v] \<and> time_Parse v = None \<longrightarrow>
        initRegistry (b # bs) = Inl (DateSyntax ''file-date'' v))"
proof -
  have iff: "initRegistry (b # bs) = Inr r \<longleftrightarrow>
      (\<exists>v d. lexBlock b ''file-date'' = Some [v] \<and> time_Parse v = Some d
             \<and> r = \<lparr>FileDate = d, Entries = []\<rparr>)"
  proof (cases "lexBlock b ''file-date''")
    case None
    then show ?thesis by (simp add: initRegistry_def)
  next
    case (Some fd)
    show ?thesis
    proof (cases fd)
      case Nil
      with Some show ?thesis by (simp add: initRegistry_def parseDate_def)
    next
      case (Cons v rest)
      show ?thesis
      proof (cases rest)
        case Nil
        with Some Cons show ?thesis
          by (cases "time_Parse v") (auto simp: initRegistry_def parseDate_def)
      next
        case (Cons v' rest')
        with Some \<open>fd = v # rest\<close> show ?thesis
          by (simp add: initRegistry_def parseDate_def)
      qed
    qed
  qed
  show ?thesis
    by (simp only: iff) (auto simp: initRegistry_def parseDate_def)
qed

theorem initRegistry_file_date_witness:
  "initRegistry [''File-Date: 2022-08-08''] = Inr \<lparr>FileDate = Date 2022 8 8, Entries = []\<rparr>"
  using initRegistry_file_date [of "''File-Date: 2022-08-08''" "[]" "\<lparr>FileDate = Date 2022 8 8, Entries = []\<rparr>" "[]" "[]"]
  by (simp add: lexBlock_eval time_Parse_eval)

text \<open>
  C1, as the specification words it, fails: a header block with a \<open>type\<close> field beside
  \<open>file-date\<close> is accepted.
\<close>

theorem initRegistry_extra_field_counterexample:
  "initRegistry [''File-Date: 2022-08-08\<newline>Type: language'']
     = Inr \<lparr>FileDate = Date 2022 8 8, Entries = []\<rparr>
   \<and> lexBlock ''File-Date: 2022-08-08\<newline>Type: language'' ''type'' = Some [''language'']"
  by (simp add: initRegistry_def parseDate_def lexBlock_eval time_Parse_eval)

section \<open>The record parser on single-valued and list fields\<close>

lemma map_sum_id_Inr: "map_sum id f x = Inr y \<longleftrightarrow> (\<exists>z. x = Inr z \<and> y = f z)"
  by (cases x) auto






lemma isl_parseField: "isl (parseField e k vs) = isl (parseField e' k vs)"
  by (simp add: parseField_def isl_map_sum)

lemma decodes_iff: "decodes (k, vs) \<longleftrightarrow> (\<exists>e'. parseField e k vs = Inr e')"
proof -
  have "decodes (k, vs) \<longleftrightarrow> \<not> isl (parseField Entry_zero k vs)"
    by (simp add: decodes_def split: sum.splits)
  also have "\<dots> \<longleftrightarrow> \<not> isl (parseField e k vs)"
    using isl_parseField by blast
  also have "\<dots> \<longleftrightarrow> (\<exists>e'. parseField e k vs = Inr e')"
    by (cases "parseField e k vs") auto
  finally show ?thesis .
qed

lemma parseEntries_Inr_iff:
  "(\<exists>e'. parseEntries e visit = Inr e') \<longleftrightarrow> list_all decodes visit"
proof (induction visit arbitrary: e)
  case Nil
  then show ?case by simp
next
  case (Cons kv visit)
  obtain k vs where kv: "kv = (k, vs)" by (cases kv)
  show ?case
  proof (cases "parseField e k vs")
    case (Inl err)
    then have "\<not> decodes (k, vs)"
      using decodes_iff [of k vs e] by simp
    with Inl kv show ?thesis by simp
  next
    case (Inr e1)
    then have "decodes (k, vs)"
      using decodes_iff [of k vs e] by simp
    with Inr kv Cons.IH [of e1] show ?thesis by simp
  qed
qed



lemma parseField_lists:
  assumes "parseField e k vs = Inr e'"
  shows "Description e' = (if k = ''description'' then vs else Description e)"
    and "Prefix e' = (if k = ''prefix'' then vs else Prefix e)"
  using assms
  by (auto simp: parseField_def map_sum_id_Inr split: if_splits)

lemma parseEntries_field:
  fixes sel :: "Entry \<Rightarrow> 'a" and ex :: "string list \<Rightarrow> 'a"
  assumes step: "\<And>e k vs e'. parseField e k vs = Inr e' \<Longrightarrow>
                   sel e' = (if k = key then ex vs else sel e)"
    and "distinct (map fst visit)" and "parseEntries e visit = Inr e'"
  shows "sel e' = (case map_of visit key of None \<Rightarrow> sel e | Some vs \<Rightarrow> ex vs)"
  using assms(2,3)
proof (induction visit arbitrary: e)
  case Nil
  then show ?case by simp
next
  case (Cons kv visit)
  obtain k vs where kv: "kv = (k, vs)" by (cases kv)
  from Cons.prems(2) kv obtain e1 where
    e1: "parseField e k vs = Inr e1" and rest: "parseEntries e1 visit = Inr e'"
    by (auto split: sum.splits)
  from Cons.prems(1) kv have dist: "distinct (map fst visit)" and fresh: "k \<notin> fst ` set visit"
    by auto
  have IH: "sel e' = (case map_of visit key of None \<Rightarrow> sel e1 | Some vs \<Rightarrow> ex vs)"
    using Cons.IH [OF dist rest] .
  show ?case
  proof (cases "k = key")
    case True
    with fresh have "map_of visit key = None"
      by (simp add: map_of_eq_None_iff)
    with IH step [OF e1] True kv show ?thesis by simp
  next
    case False
    with IH step [OF e1] kv show ?thesis by (simp split: option.splits)
  qed
qed









lemma decodes_lists: "decodes (''description'', vs)" "decodes (''prefix'', vs)"
  by (simp_all add: decodes_def parseField_def)

section \<open>The block splitter against the split of the text\<close>

lemma strings_Index_bound:
  "strings_Index s sp = Some m \<Longrightarrow> m + length sp \<le> length s"
proof (induction s arbitrary: m)
  case Nil
  then show ?case by (simp split: if_splits)
next
  case (Cons c cs)
  show ?case
  proof (cases "prefix sp (c # cs)")
    case True
    with Cons.prems show ?thesis by (auto dest: prefix_length_le)
  next
    case False
    with Cons.prems obtain m' where "strings_Index cs sp = Some m'" "m = Suc m'"
      by auto
    with Cons.IH show ?thesis by fastforce
  qed
qed

lemma strings_Index_prefix:
  "strings_Index s sp = Some m \<Longrightarrow> prefix sp (drop m s)"
proof (induction s arbitrary: m)
  case Nil
  then show ?case by (simp split: if_splits)
next
  case (Cons c cs)
  show ?case
  proof (cases "prefix sp (c # cs)")
    case True
    with Cons.prems show ?thesis by simp
  next
    case False
    with Cons.prems obtain m' where "strings_Index cs sp = Some m'" "m = Suc m'"
      by auto
    with Cons.IH show ?thesis by simp
  qed
qed

lemma prefix_take_iff: "prefix xs (take n ys) \<longleftrightarrow> prefix xs ys \<and> length xs \<le> n"
proof
  assume a: "prefix xs (take n ys)"
  then have "prefix xs ys"
    using take_is_prefix prefix_order.order_trans by blast
  moreover from a have "length xs \<le> n"
    using prefix_length_le by fastforce
  ultimately show "prefix xs ys \<and> length xs \<le> n" ..
next
  assume "prefix xs ys \<and> length xs \<le> n"
  then obtain zs where ys: "ys = xs @ zs" and n: "length xs \<le> n"
    by (auto simp: prefix_def)
  then show "prefix xs (take n ys)"
    by simp
qed

lemma strings_Index_take:
  "strings_Index s sp = Some m \<Longrightarrow> m + length sp \<le> n \<Longrightarrow> strings_Index (take n s) sp = Some m"
proof (induction s arbitrary: m n)
  case Nil
  then show ?case by (simp split: if_splits)
next
  case (Cons c cs)
  show ?case
  proof (cases "prefix sp (c # cs)")
    case True
    with Cons.prems have m: "m = 0" and n: "length sp \<le> n" by auto
    from True n have "prefix sp (take n (c # cs))"
      by (simp only: prefix_take_iff)
    then show ?thesis
      using m by (cases n) (auto simp: Cons_prefix_Cons)
  next
    case False
    with Cons.prems obtain m' where m': "strings_Index cs sp = Some m'" "m = Suc m'"
      by auto
    with Cons.prems obtain n' where n': "n = Suc n'" "m' + length sp \<le> n'"
      by (cases n) auto
    from False have "\<not> prefix sp (take n (c # cs))"
      by (simp only: prefix_take_iff) simp
    with n' have "\<not> prefix sp (c # take n' cs)" by simp
    with Cons.IH [OF m'(1) n'(2)] m' n' show ?thesis by simp
  qed
qed


lemma sep_nonempty: "sep \<noteq> []" and length_sep: "length sep = 4"
  by (simp_all add: sep_def)

lemma spec_blocks_None:
  "strings_Index input sep = None \<Longrightarrow> spec_blocks input = [input]"
  by (simp add: spec_blocks_def strings_Split.simps sep_nonempty)

lemma spec_blocks_Some:
  "strings_Index input sep = Some m \<Longrightarrow>
     spec_blocks input = take m input # spec_blocks (drop (m + length sep) input)"
  by (simp add: spec_blocks_def strings_Split.simps [of input] sep_nonempty)

lemma spec_blocks_nonempty: "spec_blocks input \<noteq> []"
  by (cases "strings_Index input sep") (simp_all add: spec_blocks_None spec_blocks_Some)

lemma take_Suc_at_sep:
  assumes "strings_Index input sep = Some m"
  shows "take (m + 1) input = take m input @ [CHR 0x0A]"
proof -
  from assms have "prefix sep (drop m input)"
    by (rule strings_Index_prefix)
  then obtain rest where d: "drop m input = sep @ rest"
    by (auto simp: prefix_def)
  then have lt: "m < length input"
    by (metis drop_all sep_nonempty append_is_Nil_conv not_le_imp_less)
  from d have "input ! m = CHR 0x0A"
    using lt by (metis Cons_nth_drop_Suc append_Cons list.inject sep_def)
  with lt show ?thesis
    by (simp add: take_Suc_conv_app_nth)
qed

lemma Scanner_tokens_final:
  assumes "strings_Index input sep = None" and "length input < MaxScanTokenSize"
  shows "Scanner_tokens input = [input]"
  using assms by (simp add: Scanner_tokens.simps [of input] splitFunc_def)

lemma Scanner_tokens_token:
  assumes idx: "strings_Index input sep = Some m" and fits: "m + length sep \<le> MaxScanTokenSize"
  shows "Scanner_tokens input
           = (take m input @ [CHR 0x0A]) # Scanner_tokens (drop (m + length sep) input)"
proof -
  from idx fits have "strings_Index (take MaxScanTokenSize input) sep = Some m"
    by (rule strings_Index_take)
  moreover from fits have "take (m + 1) (take MaxScanTokenSize input) = take (m + 1) input"
    by (simp add: length_sep min_def)
  ultimately show ?thesis
    using take_Suc_at_sep [OF idx]
    by (simp add: Scanner_tokens.simps [of input] splitFunc_def)
qed

text \<open>
  C3, as the code has it. Let the pieces be the input split on the separator. When
  every piece with a separator after it fits the buffer of the scanner (at most
  \<open>MaxScanTokenSize\<close> bytes together), the blocks are the pieces in order: each piece
  before the last is followed by the first newline of its separator
  (\<open>token = data[:index+1]\<close>), the rest of the separator is dropped, and the
  remainder after the last separator, or the whole input without a separator, is the
  final block as it is, also when it is empty.
\<close>

theorem loadBlocks_split:
  "(\<forall>p \<in> set (spec_blocks input). length p + length sep \<le> MaxScanTokenSize) \<Longrightarrow>
     loadBlocks input
       = map (\<lambda>p. p @ [CHR 0x0A]) (butlast (spec_blocks input)) @ [last (spec_blocks input)]"
proof (induction input rule: length_induct)
  case (1 input)
  show ?case
  proof (cases "strings_Index input sep")
    case None
    then have blocks: "spec_blocks input = [input]"
      by (rule spec_blocks_None)
    with "1.prems" have "length input < MaxScanTokenSize"
      by (simp add: length_sep)
    with None blocks show ?thesis
      by (simp add: loadBlocks_def Scanner_tokens_final)
  next
    case (Some m)
    let ?rest = "drop (m + length sep) input"
    have blocks: "spec_blocks input = take m input # spec_blocks ?rest"
      using Some by (rule spec_blocks_Some)
    from Some have bound: "m + length sep \<le> length input"
      by (rule strings_Index_bound)
    with "1.prems" blocks have fits: "m + length sep \<le> MaxScanTokenSize"
      by simp
    from bound have shorter: "length ?rest < length input"
      by (simp add: length_sep)
    from "1.prems" blocks have
      "\<forall>p \<in> set (spec_blocks ?rest). length p + length sep \<le> MaxScanTokenSize"
      by simp
    with "1.IH" shorter have
      "loadBlocks ?rest
         = map (\<lambda>p. p @ [CHR 0x0A]) (butlast (spec_blocks ?rest)) @ [last (spec_blocks ?rest)]"
      by blast
    with Scanner_tokens_token [OF Some fits] blocks show ?thesis
      by (simp add: loadBlocks_def spec_blocks_nonempty)
  qed
qed

lemmas loadBlocks_eval =
  loadBlocks_def Scanner_tokens.simps splitFunc_def MaxScanTokenSize_def sep_def

theorem loadBlocks_split_witness:
  "loadBlocks ''File-Date: 2022-08-08\<newline>%%\<newline>Type: language\<newline>%%\<newline>Type: region\<newline>''
     = [''File-Date: 2022-08-08\<newline>'', ''Type: language\<newline>'', ''Type: region\<newline>'']"
  using loadBlocks_split [of "''File-Date: 2022-08-08\<newline>%%\<newline>Type: language\<newline>%%\<newline>Type: region\<newline>''"]
  by (simp add: spec_blocks_def strings_Split.simps sep_def MaxScanTokenSize_def)

text \<open>
  C3, as the specification words it, fails: the block before a separator keeps the
  newline that starts the separator, so it is not the text strictly between
  separators.
\<close>

theorem loadBlocks_newline_counterexample:
  "loadBlocks ''a\<newline>%%\<newline>b'' = [''a\<newline>'', ''b'']
   \<and> spec_blocks ''a\<newline>%%\<newline>b'' = [''a'', ''b'']"
  by (simp add: loadBlocks_eval spec_blocks_def strings_Split.simps)

text \<open>
  The bound of \<open>loadBlocks_split\<close> is needed: on \<open>MaxScanTokenSize\<close> bytes without a
  separator the scanner stops with \<open>ErrTooLong\<close>, which \<open>loadBlocks\<close> does not read, and
  no block is returned.
\<close>

lemma strings_Index_replicate:
  "c \<noteq> CHR 0x0A \<Longrightarrow> strings_Index (replicate n c) sep = None"
  by (induction n) (simp_all add: sep_def)

lemma loadBlocks_too_long:
  "loadBlocks (replicate MaxScanTokenSize (CHR ''a'')) = []"
  by (simp add: loadBlocks_def Scanner_tokens.simps [of "replicate MaxScanTokenSize (CHR ''a'')"]
      splitFunc_def strings_Index_replicate)

section \<open>Continuation lines in the field lexer\<close>

lemma strings_Index_newline_None:
  "CHR 0x0A \<notin> set r \<Longrightarrow> strings_Index r [CHR 0x0A] = None"
  by (induction r) auto

lemma strings_Index_newline_Some:
  "CHR 0x0A \<notin> set r \<Longrightarrow> strings_Index (r @ CHR 0x0A # rest) [CHR 0x0A] = Some (length r)"
  by (induction r) auto

lemma strings_Split_joinRows:
  "rows \<noteq> [] \<Longrightarrow> \<forall>r \<in> set rows. CHR 0x0A \<notin> set r \<Longrightarrow>
     strings_Split (joinRows rows) [CHR 0x0A] = rows"
proof (induction rows rule: joinRows.induct)
  case 1
  then show ?case by simp
next
  case (2 r)
  then show ?case
    by (simp add: strings_Split.simps [of r] strings_Index_newline_None)
next
  case (3 r r' rest)
  then have "strings_Split (joinRows (r' # rest)) [CHR 0x0A] = r' # rest"
    by simp
  moreover from "3.prems" have
    "strings_Index (r @ CHR 0x0A # joinRows (r' # rest)) [CHR 0x0A] = Some (length r)"
    by (simp add: strings_Index_newline_Some)
  ultimately show ?case
    by (simp add: strings_Split.simps [of "r @ CHR 0x0A # joinRows (r' # rest)"])
qed

lemma lexRow_empty: "lexRow st [] = st"
  by (cases st) (simp add: lexRow_def)

lemma lexRow_continuation:
  "row \<noteq> [] \<Longrightarrow> \<not> isFieldLine row \<Longrightarrow>
     lexRow (m, ck, cv) row = (m, ck, cv @ '' '' @ strings_Trim row '' '')"
  by (simp add: lexRow_def isFieldLine_def Let_def)

lemma isFieldLine_nonempty: "isFieldLine row \<Longrightarrow> row \<noteq> []"
  by (auto simp: isFieldLine_def PropRowRx_FindStringSubmatch_def)

lemma lexRow_field:
  "isFieldLine row \<Longrightarrow>
     lexRow (m, ck, cv) row =
       ((if ck \<noteq> [] then appendValue m ck cv else m),
        strings_ToLower (PropRowRx_FindStringSubmatch row ! 1),
        PropRowRx_FindStringSubmatch row ! 2)"
  using isFieldLine_nonempty [of row] by (simp add: lexRow_def isFieldLine_def Let_def)

lemma isFieldLine_name_nonempty:
  "isFieldLine row \<Longrightarrow> strings_ToLower (PropRowRx_FindStringSubmatch row ! 1) \<noteq> []"
  by (auto simp: isFieldLine_def PropRowRx_FindStringSubmatch_def Let_def strings_ToLower_def
      split: if_splits)

lemma foldValue_Cons:
  "foldValue cv (c # conts) = foldValue (cv @ '' '' @ strings_Trim c '' '') conts"
  by (simp add: foldValue_def)

lemma foldl_lexRow_continuations:
  "\<forall>c \<in> set conts. c \<noteq> [] \<and> \<not> isFieldLine c \<Longrightarrow>
     foldl lexRow (m, ck, cv) conts = (m, ck, foldValue cv conts)"
proof (induction conts arbitrary: cv)
  case Nil
  then show ?case by (simp add: foldValue_def)
next
  case (Cons c conts)
  then show ?case
    by (simp add: lexRow_continuation foldValue_Cons del: append_assoc)
qed

lemma lexBlock_joinRows:
  assumes "\<forall>r \<in> set rows. CHR 0x0A \<notin> set r"
  shows "lexBlock (joinRows rows) = lexFlush (foldl lexRow (Map.empty, [], []) rows)"
proof (cases rows)
  case Nil
  then show ?thesis
    by (simp add: lexBlock_def strings_Split.simps [of "[]"] lexRow_empty)
next
  case (Cons r rest)
  with assms have "strings_Split (joinRows rows) [CHR 0x0A] = rows"
    by (intro strings_Split_joinRows) auto
  then show ?thesis
    by (simp add: lexBlock_def)
qed


lemma all_same_replicate: "\<forall>x \<in> set xs. x = a \<Longrightarrow> xs = replicate (length xs) a"
  by (induction xs) auto

lemma rev_dropWhile_takeWhile:
  "xs = rev (dropWhile P (rev xs)) @ rev (takeWhile P (rev xs))"
  by (metis rev_append rev_rev_ident takeWhile_dropWhile_id)

lemma strings_Trim_space:
  "\<exists>a b. c = replicate a (CHR '' '') @ strings_Trim c '' '' @ replicate b (CHR '' '')
         \<and> (strings_Trim c '' '' = []
              \<or> hd (strings_Trim c '' '') \<noteq> CHR '' '' \<and> last (strings_Trim c '' '') \<noteq> CHR '' '')"
proof -
  let ?P = "\<lambda>x. x = CHR '' ''"
  let ?l = "takeWhile ?P c" and ?d = "dropWhile ?P c"
  let ?r = "takeWhile ?P (rev ?d)" and ?t = "dropWhile ?P (rev ?d)"
  have trim: "strings_Trim c '' '' = rev ?t"
    by (simp add: strings_Trim_def)
  have d: "?d = rev ?t @ rev ?r"
    by (rule rev_dropWhile_takeWhile)
  have "c = ?l @ ?d" by simp
  with d have c: "c = ?l @ rev ?t @ rev ?r" by simp
  have "\<forall>x \<in> set ?l. x = CHR '' ''"
    by (auto dest: set_takeWhileD)
  then have l: "?l = replicate (length ?l) (CHR '' '')"
    by (rule all_same_replicate)
  have "\<forall>x \<in> set (rev ?r). x = CHR '' ''"
    by (auto dest: set_takeWhileD)
  then have r: "rev ?r = replicate (length (rev ?r)) (CHR '' '')"
    by (rule all_same_replicate)
  have ends: "hd (rev ?t) \<noteq> CHR '' '' \<and> last (rev ?t) \<noteq> CHR '' ''" if ne: "rev ?t \<noteq> []"
  proof
    from ne have t: "?t \<noteq> []" by simp
    then have "\<not> ?P (hd ?t)" by (rule hd_dropWhile)
    with t show "last (rev ?t) \<noteq> CHR '' ''" by (simp add: last_rev)
    from ne d have "?d \<noteq> []" and "hd ?d = hd (rev ?t)"
      by (metis append_is_Nil_conv, metis hd_append2)
    moreover from \<open>?d \<noteq> []\<close> have "\<not> ?P (hd ?d)" by (rule hd_dropWhile)
    ultimately show "hd (rev ?t) \<noteq> CHR '' ''" by simp
  qed
  from c l r have "c = replicate (length ?l) (CHR '' '') @ strings_Trim c '' ''
        @ replicate (length (rev ?r)) (CHR '' '')"
    unfolding trim by metis
  with ends show ?thesis
    unfolding trim by blast
qed

text \<open>
  C5, as the code has it. A continuation line, a row that is not empty and does not
  match the field-line pattern, leaves the map and the current key as they are and
  appends to the current value one space and the row without its leading and
  trailing space characters; other white space, a tab for one, is kept. So a block
  of a field line and continuation lines is lexed to one key with one value, the
  value of the field line and the trimmed continuation lines joined by single
  spaces.
\<close>

theorem lexBlock_continuation:
  "isFieldLine row \<Longrightarrow> \<forall>c \<in> set conts. c \<noteq> [] \<and> \<not> isFieldLine c \<Longrightarrow>
   \<forall>r \<in> set (row # conts). CHR 0x0A \<notin> set r \<Longrightarrow>
     foldl lexRow (m, ck, cv) conts = (m, ck, foldValue cv conts)
     \<and> lexBlock (joinRows (row # conts))
         = [strings_ToLower (PropRowRx_FindStringSubmatch row ! 1)
              \<mapsto> [foldValue (PropRowRx_FindStringSubmatch row ! 2) conts]]
     \<and> (\<forall>c \<in> set conts. \<exists>a b.
           c = replicate a (CHR '' '') @ strings_Trim c '' '' @ replicate b (CHR '' '')
           \<and> (strings_Trim c '' '' = []
                \<or> hd (strings_Trim c '' '') \<noteq> CHR '' ''
                  \<and> last (strings_Trim c '' '') \<noteq> CHR '' ''))"
proof (intro conjI ballI)
  assume field: "isFieldLine row"
    and conts: "\<forall>c \<in> set conts. c \<noteq> [] \<and> \<not> isFieldLine c"
    and rows: "\<forall>r \<in> set (row # conts). CHR 0x0A \<notin> set r"
  show "foldl lexRow (m, ck, cv) conts = (m, ck, foldValue cv conts)"
    using conts by (rule foldl_lexRow_continuations)
  let ?key = "PropRowRx_FindStringSubmatch row"
  have "lexBlock (joinRows (row # conts))
          = lexFlush (foldl lexRow (Map.empty, [], []) (row # conts))"
    using rows by (rule lexBlock_joinRows)
  also have "\<dots> = lexFlush (foldl lexRow (Map.empty, strings_ToLower (?key ! 1), ?key ! 2) conts)"
    using field by (simp add: lexRow_field)
  also have "\<dots> = lexFlush (Map.empty, strings_ToLower (?key ! 1), foldValue (?key ! 2) conts)"
    using conts by (simp only: foldl_lexRow_continuations)
  also have "\<dots> = [strings_ToLower (?key ! 1) \<mapsto> [foldValue (?key ! 2) conts]]"
    using isFieldLine_name_nonempty [OF field] by (simp add: lexFlush_def appendValue_def)
  finally show "lexBlock (joinRows (row # conts))
      = [strings_ToLower (?key ! 1) \<mapsto> [foldValue (?key ! 2) conts]]" .
next
  fix c
  show "\<exists>a b. c = replicate a (CHR '' '') @ strings_Trim c '' '' @ replicate b (CHR '' '')
         \<and> (strings_Trim c '' '' = []
              \<or> hd (strings_Trim c '' '') \<noteq> CHR '' '' \<and> last (strings_Trim c '' '') \<noteq> CHR '' '')"
    by (rule strings_Trim_space)
qed


theorem lexBlock_continuation_witness:
  "lexBlock ''Comments: sr, hr, bs are preferred for most modern uses\<newline>  and this is a note''
     = [''comments'' \<mapsto> [''sr, hr, bs are preferred for most modern uses and this is a note'']]"
  using lexBlock_continuation [of "''Comments: sr, hr, bs are preferred for most modern uses''"
      "[''  and this is a note'']" Map.empty "[]" "[]"]
  by (simp add: isFieldLine_def foldValue_def PropRowRx_FindStringSubmatch_def isNameByte_def
      isUpper_def isLower_def strings_ToLower_def strings_Trim_def Let_def char_of_def
      bit_Suc_0_iff)

text \<open>
  C5, as the specification words it, fails: the tab that starts a continuation line
  is white space and is not trimmed.
\<close>

theorem lexBlock_tab_counterexample:
  "lexBlock (''Comments: a'' @ [CHR 0x0A, CHR 0x09] @ ''b'') ''comments''
     = Some [[CHR ''a'', CHR '' '', CHR 0x09, CHR ''b'']]"
  by (simp add: lexBlock_eval)

lemma isNameByte_not:
  "\<not> isNameByte (CHR '':'')" "\<not> isNameByte (CHR '' '')" "\<not> isNameByte (CHR 0x0A)"
  by (simp_all add: isNameByte_def isUpper_def isLower_def)

lemma name_bytes:
  assumes "list_all isNameByte name"
  shows "takeWhile isNameByte (name @ CHR '':'' # rest) = name"
    and "dropWhile isNameByte (name @ CHR '':'' # rest) = CHR '':'' # rest"
    and "CHR '' '' \<notin> set name" and "CHR 0x0A \<notin> set name"
proof -
  from assms have all: "\<forall>x \<in> set name. isNameByte x"
    by (simp add: list_all_iff)
  then show "takeWhile isNameByte (name @ CHR '':'' # rest) = name"
    by (simp add: takeWhile_append2 isNameByte_not)
  from all show "dropWhile isNameByte (name @ CHR '':'' # rest) = CHR '':'' # rest"
    by (simp add: dropWhile_append2 isNameByte_not)
  from all show "CHR '' '' \<notin> set name" and "CHR 0x0A \<notin> set name"
    using isNameByte_not by blast+
qed

lemma no_value_not_field:
  assumes "list_all isNameByte name"
  shows "\<not> isFieldLine (name @ '':'')" and "\<not> isFieldLine (name @ '': '')"
  using name_bytes(1,2) [OF assms]
  by (simp_all add: isFieldLine_def PropRowRx_FindStringSubmatch_def Let_def)

lemma no_value_Trim:
  assumes "name \<noteq> []" and "list_all isNameByte name"
  shows "strings_Trim (name @ '':'') '' '' = name @ '':''"
    and "strings_Trim (name @ '': '') '' '' = name @ '':''"
proof -
  from assms obtain c cs where name: "name = c # cs" and c: "c \<noteq> CHR '' ''"
    using name_bytes(3) [OF assms(2)] by (cases name) auto
  show "strings_Trim (name @ '':'') '' '' = name @ '':''"
    using c by (simp add: strings_Trim_def name)
  show "strings_Trim (name @ '': '') '' '' = name @ '':''"
    using c by (simp add: strings_Trim_def name)
qed

lemma foldl_lexRow_no_field:
  "\<forall>r \<in> set pre. \<not> isFieldLine r \<Longrightarrow> \<exists>cv'. foldl lexRow (m, [], cv) pre = (m, [], cv')"
proof (induction pre arbitrary: cv)
  case Nil
  then show ?case by simp
next
  case (Cons r pre)
  then show ?case
    by (cases "r = []") (simp_all add: lexRow_empty lexRow_continuation)
qed

lemma lexFlush_no_key:
  "lexFlush (foldl lexRow (m, [], cv) rows) = lexFlush (foldl lexRow (m, [], cv') rows)"
proof (induction rows arbitrary: cv cv')
  case Nil
  then show ?case by (simp add: lexFlush_def)
next
  case (Cons r rows)
  show ?case
  proof (cases "r = []")
    case True
    with Cons.IH show ?thesis by (simp add: lexRow_empty)
  next
    case False
    show ?thesis
    proof (cases "isFieldLine r")
      case True
      then show ?thesis by (simp add: lexRow_field)
    next
      case no: False
      with False Cons.IH show ?thesis by (simp add: lexRow_continuation)
    qed
  qed
qed

text \<open>
  C9. A row that is a field name followed by a colon, or by a colon and a space, with
  nothing after it does not match the field-line pattern. It is a continuation of
  the current field: the loop keeps the map and the key and appends a space and the
  trimmed row to the value. Before any field line of the block it changes nothing:
  the block is lexed as it is without the row.
\<close>

theorem lexBlock_no_value_line:
  "name \<noteq> [] \<Longrightarrow> list_all isNameByte name \<Longrightarrow> row = name @ '':'' \<or> row = name @ '': '' \<Longrightarrow>
     \<not> isFieldLine row
     \<and> lexRow (m, ck, cv) row = (m, ck, cv @ '' '' @ name @ '':'')
     \<and> ((\<forall>r \<in> set pre. \<not> isFieldLine r) \<and> (\<forall>r \<in> set (pre @ rest). CHR 0x0A \<notin> set r)
          \<longrightarrow> lexBlock (joinRows (pre @ row # rest)) = lexBlock (joinRows (pre @ rest)))"
proof (intro conjI impI)
  assume ne: "name \<noteq> []" and nm: "list_all isNameByte name"
    and row: "row = name @ '':'' \<or> row = name @ '': ''"
  from row nm show nf: "\<not> isFieldLine row"
    using no_value_not_field by blast
  from row ne have "row \<noteq> []" by auto
  moreover from row ne nm have "strings_Trim row '' '' = name @ '':''"
    using no_value_Trim by blast
  ultimately show cont: "lexRow (m, ck, cv) row = (m, ck, cv @ '' '' @ name @ '':'')"
    using nf by (simp add: lexRow_continuation)
  assume a: "(\<forall>r \<in> set pre. \<not> isFieldLine r) \<and> (\<forall>r \<in> set (pre @ rest). CHR 0x0A \<notin> set r)"
  from row nm have "CHR 0x0A \<notin> set row"
    using name_bytes(4) by auto
  with a have nl: "\<forall>r \<in> set (pre @ row # rest). CHR 0x0A \<notin> set r"
    by auto
  from a obtain cv' where pre: "foldl lexRow (Map.empty, [], []) pre = (Map.empty, [], cv')"
    using foldl_lexRow_no_field by blast
  from \<open>row \<noteq> []\<close> nf have step: "lexRow (Map.empty, [], cv') row
      = (Map.empty, [], cv' @ '' '' @ strings_Trim row '' '')"
    by (rule lexRow_continuation)
  have "lexBlock (joinRows (pre @ row # rest))
      = lexFlush (foldl lexRow (Map.empty, [], []) (pre @ row # rest))"
    using nl by (rule lexBlock_joinRows)
  also have "\<dots> = lexFlush (foldl lexRow (Map.empty, [], cv' @ '' '' @ strings_Trim row '' '') rest)"
    by (simp add: pre step)
  also have "\<dots> = lexFlush (foldl lexRow (Map.empty, [], cv') rest)"
    by (rule lexFlush_no_key)
  also have "\<dots> = lexFlush (foldl lexRow (Map.empty, [], []) (pre @ rest))"
    by (simp add: pre)
  also have "\<dots> = lexBlock (joinRows (pre @ rest))"
    using a by (simp add: lexBlock_joinRows)
  finally show "lexBlock (joinRows (pre @ row # rest)) = lexBlock (joinRows (pre @ rest))" .
qed

theorem lexBlock_no_value_line_witness:
  "\<not> isFieldLine ''Prefix: ''
   \<and> lexRow ([''type'' \<mapsto> [''language'']], ''description'', ''Arabic'') ''Prefix: ''
       = ([''type'' \<mapsto> [''language'']], ''description'', ''Arabic Prefix:'')
   \<and> lexBlock ''Prefix: \<newline>Type: language'' = lexBlock ''Type: language''"
  using lexBlock_no_value_line [of "''Prefix''" "''Prefix: ''" "[''type'' \<mapsto> [''language'']]"
      "''description''" "''Arabic''" "[]" "[''Type: language'']"]
  by (simp add: isNameByte_def isUpper_def isLower_def)

section \<open>The lexer and the list fields\<close>

text \<open>
  The lexer against the fields read off the rows: the loop, started in any state on
  any rows, ends with the map extended by the pending field and the fields of the
  rows.
\<close>

lemma addValues_lookup:
  "addValues m kvs k =
     (if valuesOf k kvs = [] then m k
      else Some ((case m k of None \<Rightarrow> [] | Some ws \<Rightarrow> ws) @ valuesOf k kvs))"
proof (induction kvs arbitrary: m)
  case Nil
  then show ?case by (simp add: valuesOf_def)
next
  case (Cons kv kvs)
  obtain k' v where kv: "kv = (k', v)" by (cases kv)
  show ?case
    unfolding kv by (simp add: Cons.IH valuesOf_def appendValue_def)
qed

lemma lexFields_skip:
  "\<not> isFieldLine r \<Longrightarrow> lexFields (r # rows) = lexFields rows"
  by simp

lemma lexFlush_foldl:
  "lexFlush (foldl lexRow (m, ck, cv) rows) =
     (if ck = [] then addValues m (lexFields rows)
      else addValues m
        ((ck, foldValue cv (filter (\<lambda>c. c \<noteq> []) (takeWhile (\<lambda>c. \<not> isFieldLine c) rows)))
         # lexFields rows))"
proof (induction rows arbitrary: m ck cv)
  case Nil
  then show ?case by (simp add: lexFlush_def foldValue_def)
next
  case (Cons r rows)
  show ?case
  proof (cases "r = []")
    case True
    then have "\<not> isFieldLine r"
      using isFieldLine_nonempty by blast
    with True Cons.IH [of m ck cv] show ?thesis
      by (simp add: lexRow_empty)
  next
    case False
    show ?thesis
    proof (cases "isFieldLine r")
      case True
      have nk: "fieldName r \<noteq> []"
        using isFieldLine_name_nonempty [OF True] by (simp add: fieldName_def)
      have step: "lexRow (m, ck, cv) r
          = ((if ck \<noteq> [] then appendValue m ck cv else m), fieldName r, fieldValue r)"
        using True by (simp add: lexRow_field fieldName_def fieldValue_def)
      show ?thesis
        using True nk
        by (simp add: step Cons.IH foldValue_def)
    next
      case no: False
      have step: "lexRow (m, ck, cv) r = (m, ck, cv @ '' '' @ strings_Trim r '' '')"
        using False no by (rule lexRow_continuation)
      show ?thesis
        using False no
        by (simp add: step Cons.IH foldValue_Cons del: append_assoc)
    qed
  qed
qed

lemma lexBlock_fields:
  assumes "\<forall>r \<in> set rows. CHR 0x0A \<notin> set r"
  shows "lexBlock (joinRows rows) k =
           (if valuesOf k (lexFields rows) = [] then None
            else Some (valuesOf k (lexFields rows)))"
proof -
  have "lexBlock (joinRows rows) = addValues Map.empty (lexFields rows)"
    using assms by (simp add: lexBlock_joinRows lexFlush_foldl)
  then show ?thesis
    by (simp add: addValues_lookup)
qed


lemma takeWhile_append_stop:
  "\<not> P f \<Longrightarrow> takeWhile P (xs @ f # rest) = takeWhile P xs"
  by (induction xs) auto

lemma lexFields_append:
  "isFieldLine f \<Longrightarrow> lexFields (pre @ f # rest) = lexFields pre @ lexFields (f # rest)"
proof (induction pre)
  case Nil
  then show ?case by simp
next
  case (Cons r pre)
  from Cons.prems have
    "takeWhile (\<lambda>c. \<not> isFieldLine c) (pre @ f # rest) = takeWhile (\<lambda>c. \<not> isFieldLine c) pre"
    by (intro takeWhile_append_stop) simp
  with Cons show ?case by simp
qed

lemma field_line_of_name:
  assumes "n \<noteq> []" and "list_all isNameByte n" and "v \<noteq> []" and "CHR 0x0A \<notin> set v"
  shows "isFieldLine (n @ '': '' @ v)"
    and "fieldName (n @ '': '' @ v) = strings_ToLower n"
    and "fieldValue (n @ '': '' @ v) = v"
proof -
  have "PropRowRx_FindStringSubmatch (n @ '': '' @ v) = [n @ '': '' @ v, n, v]"
    using assms name_bytes(1,2) [OF assms(2), of "'' '' @ v"]
    by (simp add: PropRowRx_FindStringSubmatch_def Let_def)
  then show "isFieldLine (n @ '': '' @ v)"
    and "fieldName (n @ '': '' @ v) = strings_ToLower n"
    and "fieldValue (n @ '': '' @ v) = v"
    by (simp_all add: isFieldLine_def fieldName_def fieldValue_def)
qed

lemma valuesOf_append: "valuesOf k (a @ b) = valuesOf k a @ valuesOf k b"
  by (simp add: valuesOf_def)

lemma valuesOf_absent: "k \<notin> fst ` set kvs \<Longrightarrow> valuesOf k kvs = []"
  by (auto simp: valuesOf_def filter_empty_conv)

lemma lexBlock_two_descriptions:
  assumes n1: "n1 \<noteq> []" "list_all isNameByte n1" "strings_ToLower n1 = ''description''"
    and n2: "n2 \<noteq> []" "list_all isNameByte n2" "strings_ToLower n2 = ''description''"
    and nl: "\<forall>r \<in> set (pre @ post). CHR 0x0A \<notin> set r"
    and other: "''description'' \<notin> fst ` set (lexFields pre)"
      "''description'' \<notin> fst ` set (lexFields post)"
    and nocont: "\<forall>c \<in> set (takeWhile (\<lambda>c. \<not> isFieldLine c) post). c = []"
  shows "lexBlock (joinRows (pre @ [n1 @ '': Lojban'', n2 @ '': Lojban2''] @ post)) ''description''
           = Some [''Lojban'', ''Lojban2'']"
proof -
  let ?d1 = "n1 @ '': Lojban''" and ?d2 = "n2 @ '': Lojban2''"
  have d1: "isFieldLine ?d1" "fieldName ?d1 = ''description''" "fieldValue ?d1 = ''Lojban''"
    using field_line_of_name [OF n1(1,2), of "''Lojban''"] n1(3) by simp_all
  have d2: "isFieldLine ?d2" "fieldName ?d2 = ''description''" "fieldValue ?d2 = ''Lojban2''"
    using field_line_of_name [OF n2(1,2), of "''Lojban2''"] n2(3) by simp_all
  have "CHR 0x0A \<notin> set n1" and "CHR 0x0A \<notin> set n2"
    using name_bytes(4) n1(2) n2(2) by blast+
  with nl have rows: "\<forall>r \<in> set (pre @ [?d1, ?d2] @ post). CHR 0x0A \<notin> set r"
    by auto
  from nocont have none: "filter (\<lambda>c. c \<noteq> []) (takeWhile (\<lambda>c. \<not> isFieldLine c) post) = []"
    by (simp add: filter_empty_conv)
  have "lexFields (pre @ [?d1, ?d2] @ post) = lexFields pre @ lexFields (?d1 # ?d2 # post)"
    using lexFields_append [OF d1(1), of pre "?d2 # post"] by simp
  also have "lexFields (?d1 # ?d2 # post)
      = (''description'', ''Lojban'') # (''description'', ''Lojban2'') # lexFields post"
    using d1 d2 none by (simp add: foldValue_def)
  finally have "valuesOf ''description'' (lexFields (pre @ [?d1, ?d2] @ post))
      = [''Lojban'', ''Lojban2'']"
    using other by (simp add: valuesOf_append valuesOf_absent) (simp add: valuesOf_def valuesOf_absent [unfolded valuesOf_def])
  with lexBlock_fields [OF rows, of "''description''"] show ?thesis
    by simp
qed


text \<open>
  C8. The lexer gives, for every block and every key, the values of the fields of
  that key in the order of the rows. So for every block in which a field line
  \<open>description: Lojban\<close> is followed by a field line \<open>description: Lojban2\<close>, in any
  capitalisation of the name, with no continuation line after them and no other
  description field around them, the lexed block has the description
  \<open>[Lojban, Lojban2]\<close>, and when the decoders accept every field of the block, the
  record has that description, whatever the order in which the map is visited. In
  general the decoders of \<open>description\<close> and \<open>prefix\<close> accept every list of values, and
  the record holds the lexer's lists for the two keys unchanged (the empty list for
  an absent key).
\<close>

theorem parseBlock_lists:
  "((\<forall>r \<in> set rows. CHR 0x0A \<notin> set r) \<longrightarrow>
      lexBlock (joinRows rows) k
        = (if valuesOf k (lexFields rows) = [] then None
           else Some (valuesOf k (lexFields rows))))
   \<and> (n1 \<noteq> [] \<and> list_all isNameByte n1 \<and> strings_ToLower n1 = ''description''
       \<and> n2 \<noteq> [] \<and> list_all isNameByte n2 \<and> strings_ToLower n2 = ''description''
       \<and> (\<forall>r \<in> set (pre @ post). CHR 0x0A \<notin> set r)
       \<and> ''description'' \<notin> fst ` set (lexFields pre)
       \<and> ''description'' \<notin> fst ` set (lexFields post)
       \<and> (\<forall>c \<in> set (takeWhile (\<lambda>c. \<not> isFieldLine c) post). c = [])
       \<and> visits (lexBlock (joinRows (pre @ [n1 @ '': Lojban'', n2 @ '': Lojban2''] @ post))) visit
       \<and> list_all decodes visit
       \<longrightarrow> (\<exists>e. parseBlock visit = Inr e \<and> Description e = [''Lojban'', ''Lojban2'']))
   \<and> strings_ToLower ''Description'' = ''description''
   \<and> strings_ToLower ''DESCRIPTION'' = ''description''
   \<and> strings_ToLower ''Prefix'' = ''prefix''
   \<and> lexBlock ''description: Lojban\<newline>description: Lojban2''
       = [''description'' \<mapsto> [''Lojban'', ''Lojban2'']]
   \<and> parseBlock [(''description'', [''Lojban'', ''Lojban2''])]
       = Inr (Entry_zero\<lparr>Description := [''Lojban'', ''Lojban2'']\<rparr>)
   \<and> decodes (''description'', vs) \<and> decodes (''prefix'', vs)
   \<and> (visits (lexBlock b) visit' \<and> list_all decodes visit' \<longrightarrow>
        (\<exists>e. parseBlock visit' = Inr e
           \<and> Description e = (case lexBlock b ''description'' of None \<Rightarrow> [] | Some ds \<Rightarrow> ds)
           \<and> Prefix e = (case lexBlock b ''prefix'' of None \<Rightarrow> [] | Some ps \<Rightarrow> ps)))"
proof -
  have pass: "\<exists>e. parseBlock w = Inr e
           \<and> Description e = (case lexBlock c ''description'' of None \<Rightarrow> [] | Some ds \<Rightarrow> ds)
           \<and> Prefix e = (case lexBlock c ''prefix'' of None \<Rightarrow> [] | Some ps \<Rightarrow> ps)"
    if a: "visits (lexBlock c) w \<and> list_all decodes w" for c w
  proof -
    from a have dist: "distinct (map fst w)" and look: "map_of w = lexBlock c"
      by (simp_all add: visits_def)
    from a obtain e where e: "parseEntries Entry_zero w = Inr e"
      using parseEntries_Inr_iff [of Entry_zero w] by blast
    have zero: "Description Entry_zero = []" "Prefix Entry_zero = []"
      by (simp_all add: Entry_zero_def)
    have "Description e
        = (case map_of w ''description'' of None \<Rightarrow> Description Entry_zero | Some ds \<Rightarrow> ds)"
      using parseEntries_field [of Description "''description''" "\<lambda>vs. vs",
          OF parseField_lists(1) dist e] .
    moreover have "Prefix e
        = (case map_of w ''prefix'' of None \<Rightarrow> Prefix Entry_zero | Some ps \<Rightarrow> ps)"
      using parseEntries_field [of Prefix "''prefix''" "\<lambda>vs. vs",
          OF parseField_lists(2) dist e] .
    ultimately show ?thesis
      using e look zero by (simp add: parseBlock_def split: option.splits)
  qed
  have two: "\<exists>e. parseBlock visit = Inr e \<and> Description e = [''Lojban'', ''Lojban2'']"
    if h: "n1 \<noteq> [] \<and> list_all isNameByte n1 \<and> strings_ToLower n1 = ''description''
       \<and> n2 \<noteq> [] \<and> list_all isNameByte n2 \<and> strings_ToLower n2 = ''description''
       \<and> (\<forall>r \<in> set (pre @ post). CHR 0x0A \<notin> set r)
       \<and> ''description'' \<notin> fst ` set (lexFields pre)
       \<and> ''description'' \<notin> fst ` set (lexFields post)
       \<and> (\<forall>c \<in> set (takeWhile (\<lambda>c. \<not> isFieldLine c) post). c = [])
       \<and> visits (lexBlock (joinRows (pre @ [n1 @ '': Lojban'', n2 @ '': Lojban2''] @ post))) visit
       \<and> list_all decodes visit"
  proof -
    let ?b = "joinRows (pre @ [n1 @ '': Lojban'', n2 @ '': Lojban2''] @ post)"
    from h have "lexBlock ?b ''description'' = Some [''Lojban'', ''Lojban2'']"
      by (intro lexBlock_two_descriptions) simp_all
    moreover from h have "visits (lexBlock ?b) visit \<and> list_all decodes visit"
      by simp
    ultimately show ?thesis
      using pass [of ?b visit] by auto
  qed
  have lower: "strings_ToLower ''Description'' = ''description''"
    "strings_ToLower ''DESCRIPTION'' = ''description''"
    "strings_ToLower ''Prefix'' = ''prefix''"
    by (simp_all add: strings_ToLower_def isUpper_def char_of_def bit_Suc_0_iff)
  have small: "lexBlock ''description: Lojban\<newline>description: Lojban2''
       = [''description'' \<mapsto> [''Lojban'', ''Lojban2'']]"
    by (simp add: lexBlock_eval)
  have parsed: "parseBlock [(''description'', [''Lojban'', ''Lojban2''])]
       = Inr (Entry_zero\<lparr>Description := [''Lojban'', ''Lojban2'']\<rparr>)"
    by (simp add: parseBlock_def parseField_def)
  show ?thesis
    using lexBlock_fields [of rows k] two lower small parsed decodes_lists [of vs]
      pass [of b visit']
    by (intro conjI impI) blast+
qed


theorem parseBlock_lists_witness:
  "lexBlock ''Type: grandfathered\<newline>Tag: art-lojban\<newline>Description: Lojban\<newline>Description: Lojban2\<newline>Added: 2001-11-11\<newline>''
     = [''type'' \<mapsto> [''grandfathered''], ''tag'' \<mapsto> [''art-lojban''],
        ''description'' \<mapsto> [''Lojban'', ''Lojban2''], ''added'' \<mapsto> [''2001-11-11'']]
   \<and> (\<exists>e. parseBlock [(''added'', [''2001-11-11'']), (''description'', [''Lojban'', ''Lojban2'']),
                       (''tag'', [''art-lojban'']), (''type'', [''grandfathered''])] = Inr e
          \<and> Description e = [''Lojban'', ''Lojban2''])"
proof -
  let ?pre = "[''Type: grandfathered'', ''Tag: art-lojban'']"
  let ?post = "[''Added: 2001-11-11'', []]"
  let ?visit = "[(''added'', [''2001-11-11'']), (''description'', [''Lojban'', ''Lojban2'']),
                 (''tag'', [''art-lojban'']), (''type'', [''grandfathered''])]"
  let ?b = "''Type: grandfathered\<newline>Tag: art-lojban\<newline>Description: Lojban\<newline>Description: Lojban2\<newline>Added: 2001-11-11\<newline>''"
  have b: "joinRows (?pre @ [''Description'' @ '': Lojban'', ''Description'' @ '': Lojban2''] @ ?post) = ?b"
    by simp
  have lexed: "lexBlock ?b
     = [''type'' \<mapsto> [''grandfathered''], ''tag'' \<mapsto> [''art-lojban''],
        ''description'' \<mapsto> [''Lojban'', ''Lojban2''], ''added'' \<mapsto> [''2001-11-11'']]"
    by (simp add: lexBlock_eval)
  have vis: "visits (lexBlock ?b) ?visit"
    unfolding lexed visits_def by (auto simp: fun_eq_iff)
  have dec: "list_all decodes ?visit"
    by (simp add: decodes_def parseField_def parseString_def parseDate_def time_Parse_eval)
  have fields: "lexFields ?pre = [(''type'', ''grandfathered''), (''tag'', ''art-lojban'')]"
    "lexFields ?post = [(''added'', ''2001-11-11'')]"
    "takeWhile (\<lambda>c. \<not> isFieldLine c) ?post = []"
    by (simp_all add: isFieldLine_def fieldName_def fieldValue_def foldValue_def
        PropRowRx_FindStringSubmatch_def isNameByte_def isUpper_def isLower_def
        strings_ToLower_def Let_def char_of_def bit_Suc_0_iff)
  have names: "list_all isNameByte ''Description''"
    "strings_ToLower ''Description'' = ''description''"
    by (simp_all add: isNameByte_def isUpper_def isLower_def strings_ToLower_def
        char_of_def bit_Suc_0_iff)
  show ?thesis
    using parseBlock_lists [of "[]" "[]" "''Description''" "''Description''" ?pre ?post ?visit
        "[]" "[]" "[]"]
      vis dec names
    unfolding b fields lexed
    by simp
qed

end
